theory Spec2Isabelle
  imports Complex_Main
begin

section \<open>Block-partitioned correlation matrix: the notebook \<open>distanceMatrix.ipynb\<close>\<close>

subsection \<open>Python's \<open>str\<close> on integers and on lists of integers\<close>

text \<open>
  The pair key of the notebook is \<^verbatim>\<open>str(sorted([k,l]))\<close>: the decimal
  representations of the two indices, smaller first, written as Python prints a list:
  \<^verbatim>\<open>'[0, 2]'\<close>.
\<close>

definition digit_char :: "nat \<Rightarrow> char" where
  "digit_char d = ''0123456789'' ! d"

fun str_nat :: "nat \<Rightarrow> string" where
  "str_nat n = (if n < 10 then [digit_char n]
                else str_nat (n div 10) @ [digit_char (n mod 10)])"

declare str_nat.simps [simp del]

definition str_int :: "int \<Rightarrow> string" where
  "str_int i = (if i < 0 then CHR ''-'' # str_nat (nat (- i)) else str_nat (nat i))"

fun join :: "string \<Rightarrow> string list \<Rightarrow> string" where
  "join sep [] = []"
| "join sep [x] = x"
| "join sep (x # y # ys) = x @ sep @ join sep (y # ys)"

definition str_list :: "int list \<Rightarrow> string" where
  "str_list xs = ''['' @ join '', '' (map str_int xs) @ '']''"

definition sorted_py :: "int list \<Rightarrow> int list" where
  "sorted_py xs = sort xs"

text \<open>The key expression of \<^verbatim>\<open>makePairParts\<close>, \<^verbatim>\<open>str(sorted([k,l]))\<close>.\<close>

definition PairKey :: "int \<Rightarrow> int \<Rightarrow> string" where
  "PairKey k l = str_list (sorted_py [k, l])"

subsection \<open>Stages 1 and 2: tagging the partitions and expanding the pairs\<close>

text \<open>
  \<^verbatim>\<open>
  def f(splitIndex ,v):
      return [(splitIndex,list(v))]
  stage1=stage0.mapPartitionsWithIndex(lambda splitIndex,v: f(splitIndex,v))

  def makePairParts(k,v,p):
      return [(str(sorted([k,l])),(k,v)) for l in range(0,p)]
  stage2=stage1.flatMap(lambda (k,v):makePairParts(k,v,p))
  \<close>
  The engine's \<^verbatim>\<open>mapPartitionsWithIndex\<close> calls its argument once for each
  partition, with the partition's index, and concatenates what the calls return;
  \<^verbatim>\<open>flatMap\<close> does the same for each record. The partitions themselves come from
  the engine (\<^verbatim>\<open>sc.parallelize(matrix,p)\<close>): they are a parameter here.
\<close>

definition range_py :: "int \<Rightarrow> int \<Rightarrow> int list" where
  "range_py a b = [a..b - 1]"

definition f :: "int \<Rightarrow> 'v list \<Rightarrow> (int \<times> 'v list) list" where
  "f splitIndex v = [(splitIndex, v)]"

definition mapPartitionsWithIndex ::
  "(int \<Rightarrow> 'v list \<Rightarrow> 'w list) \<Rightarrow> 'v list list \<Rightarrow> 'w list" where
  "mapPartitionsWithIndex g parts =
     concat (map (\<lambda>(i, v). g i v) (zip (range_py 0 (int (length parts))) parts))"

definition flatMap :: "('a \<Rightarrow> 'b list) \<Rightarrow> 'a list \<Rightarrow> 'b list" where
  "flatMap g xs = concat (map g xs)"

definition stage1 :: "'v list list \<Rightarrow> (int \<times> 'v list) list" where
  "stage1 stage0 = mapPartitionsWithIndex (\<lambda>splitIndex v. f splitIndex v) stage0"

definition makePairParts :: "int \<Rightarrow> 'b \<Rightarrow> int \<Rightarrow> (string \<times> int \<times> 'b) list" where
  "makePairParts k v p = map (\<lambda>l. (PairKey k l, (k, v))) (range_py 0 p)"

definition stage2 :: "int \<Rightarrow> (int \<times> 'b) list \<Rightarrow> (string \<times> int \<times> 'b) list" where
  "stage2 p s1 = flatMap (\<lambda>(k, v). makePairParts k v p) s1"

text \<open>The index pairs \<open>k \<le> l\<close> below \<open>n\<close>, used to count the keys of stage 2.\<close>

definition triangle :: "nat \<Rightarrow> (int \<times> int) set" where
  "triangle n = {(k, l). 0 \<le> k \<and> k \<le> l \<and> l < int n}"

subsection \<open>Floating-point values and numpy arrays\<close>

text \<open>
  A numpy \<^verbatim>\<open>float64\<close> is a finite number, an infinity or NaN. Here the finite
  numbers are the reals and every operation on finite values is exact: rounding, overflow
  to an infinity, underflow to zero and the sign of zero are not part of this model, and
  neither is the order in which numpy and its linear algebra library add up a sum.
  Division by zero and the other invalid operations give the IEEE special values, as
  numpy does (it prints a warning and raises nothing). So the model agrees with the code
  on the shapes, the keys, the errors and the special values, and on the numbers where
  the operations of the code are themselves exact (small integers and halves, or the
  centring of a row of one observation). Nothing below is stated about the value of a
  number that the code has rounded.
\<close>

datatype npfloat = Fin real | PInf | NInf | NaN

datatype np_error = IndexError | AxisError | ValueError

definition np_sign :: "npfloat \<Rightarrow> real" where
  "np_sign a = (case a of Fin x \<Rightarrow> sgn x | PInf \<Rightarrow> 1 | NInf \<Rightarrow> - 1 | NaN \<Rightarrow> 0)"

definition np_neg :: "npfloat \<Rightarrow> npfloat" where
  "np_neg a = (case a of Fin x \<Rightarrow> Fin (- x) | PInf \<Rightarrow> NInf | NInf \<Rightarrow> PInf | NaN \<Rightarrow> NaN)"

definition np_add :: "npfloat \<Rightarrow> npfloat \<Rightarrow> npfloat" where
  "np_add a b =
     (case (a, b) of
        (Fin x, Fin y) \<Rightarrow> Fin (x + y)
      | (NaN, _) \<Rightarrow> NaN
      | (_, NaN) \<Rightarrow> NaN
      | (Fin x, _) \<Rightarrow> b
      | (_, Fin y) \<Rightarrow> a
      | (_, _) \<Rightarrow> (if a = b then a else NaN))"

definition np_sub :: "npfloat \<Rightarrow> npfloat \<Rightarrow> npfloat" where
  "np_sub a b = np_add a (np_neg b)"

definition np_mul :: "npfloat \<Rightarrow> npfloat \<Rightarrow> npfloat" where
  "np_mul a b =
     (case (a, b) of
        (Fin x, Fin y) \<Rightarrow> Fin (x * y)
      | (NaN, _) \<Rightarrow> NaN
      | (_, NaN) \<Rightarrow> NaN
      | (_, _) \<Rightarrow> (let s = np_sign a * np_sign b
                   in if s = 0 then NaN else if 0 < s then PInf else NInf))"

definition np_div :: "npfloat \<Rightarrow> npfloat \<Rightarrow> npfloat" where
  "np_div a b =
     (case (a, b) of
        (NaN, _) \<Rightarrow> NaN
      | (_, NaN) \<Rightarrow> NaN
      | (Fin x, Fin y) \<Rightarrow>
          (if y \<noteq> 0 then Fin (x / y)
           else if x = 0 then NaN else if 0 < x then PInf else NInf)
      | (Fin x, _) \<Rightarrow> Fin 0
      | (_, Fin y) \<Rightarrow> (if (0 < np_sign a) = (0 \<le> y) then PInf else NInf)
      | (_, _) \<Rightarrow> NaN)"

definition np_sqrt :: "npfloat \<Rightarrow> npfloat" where
  "np_sqrt a = (case a of Fin x \<Rightarrow> (if x < 0 then NaN else Fin (sqrt x))
                | PInf \<Rightarrow> PInf | NInf \<Rightarrow> NaN | NaN \<Rightarrow> NaN)"

definition np_sum :: "npfloat list \<Rightarrow> npfloat" where
  "np_sum xs = foldl np_add (Fin 0) xs"

text \<open>
  A two-dimensional array is its number of columns and its rows, so that the shapes
  \<open>a \<times> 0\<close> and \<open>0 \<times> b\<close> are told apart. \<^verbatim>\<open>np.array\<close> of a list of rows of one
  length is two-dimensional; of the empty list it is the one-dimensional empty array;
  of rows of different lengths it is a one-dimensional array of objects.
\<close>

type_synonym 'a array2 = "nat \<times> 'a list list"

datatype 'a ndarray = Array1 "'a list" | Array2 nat "'a list list" | ArrayObj "'a list list"

definition np_array :: "'a list list \<Rightarrow> 'a ndarray" where
  "np_array block =
     (case block of
        [] \<Rightarrow> Array1 []
      | r # rs \<Rightarrow> if list_all (\<lambda>x. length x = length r) rs
                  then Array2 (length r) block else ArrayObj block)"

text \<open>\<^verbatim>\<open>X.mean(1)\<close>: the sum of each row divided by the number of columns.\<close>

definition mean1 :: "npfloat list list \<Rightarrow> npfloat list" where
  "mean1 X = map (\<lambda>r. np_div (np_sum r) (Fin (real (length r)))) X"

text \<open>\<^verbatim>\<open>X - m[:,None]\<close>: the column \<open>m\<close> is broadcast along each row.\<close>

definition sub_col :: "npfloat list list \<Rightarrow> npfloat list \<Rightarrow> npfloat list list" where
  "sub_col X m = map2 (\<lambda>r mr. map (\<lambda>x. np_sub x mr) r) X m"

text \<open>\<^verbatim>\<open>X**2\<close> and \<^verbatim>\<open>X.sum(1)\<close>.\<close>

definition square :: "npfloat list list \<Rightarrow> npfloat list list" where
  "square X = map (map (\<lambda>x. np_mul x x)) X"

definition sum1 :: "npfloat list list \<Rightarrow> npfloat list" where
  "sum1 X = map np_sum X"

text \<open>\<^verbatim>\<open>X.T\<close>, \<^verbatim>\<open>s[:,None]\<close> (a column) and \<^verbatim>\<open>s[None]\<close> (a row).\<close>

definition np_T :: "'a array2 \<Rightarrow> 'a array2" where
  "np_T X = (length (snd X), map (\<lambda>j. map (\<lambda>r. r ! j) (snd X)) [0..<fst X])"

definition as_col :: "'a list \<Rightarrow> 'a array2" where
  "as_col s = (1, map (\<lambda>x. [x]) s)"

definition as_row :: "'a list \<Rightarrow> 'a array2" where
  "as_row s = (length s, [s])"

text \<open>
  \<^verbatim>\<open>np.dot(X, Y)\<close> of two-dimensional arrays: a \<^verbatim>\<open>ValueError\<close> when the columns of
  \<open>X\<close> are not as many as the rows of \<open>Y\<close>.
\<close>

definition np_dot :: "npfloat array2 \<Rightarrow> npfloat array2 \<Rightarrow> np_error + npfloat array2" where
  "np_dot X Y =
     (if fst X \<noteq> length (snd Y) then Inl ValueError
      else Inr (fst Y,
             map (\<lambda>r. map (\<lambda>j. np_sum (map2 np_mul r (map (\<lambda>c. c ! j) (snd Y)))) [0..<fst Y])
               (snd X)))"

text \<open>Elementwise \<^verbatim>\<open>np.sqrt(X)\<close>, and \<^verbatim>\<open>X / Y\<close> for two arrays of one shape.\<close>

definition np_sqrt2 :: "npfloat array2 \<Rightarrow> npfloat array2" where
  "np_sqrt2 X = (fst X, map (map np_sqrt) (snd X))"

definition np_divide :: "npfloat array2 \<Rightarrow> npfloat array2 \<Rightarrow> npfloat array2" where
  "np_divide X Y = (fst X, map2 (map2 np_div) (snd X) (snd Y))"

subsection \<open>Stage 4: the block correlation\<close>

text \<open>
  \<^verbatim>\<open>
  def corr2_coeff(A,B):
      A_mA = A - A.mean(1)[:,None]
      B_mB = B - B.mean(1)[:,None]
      ssA = (A_mA**2).sum(1);
      ssB = (B_mB**2).sum(1);
      return np.dot(A_mA,B_mB.T)/np.sqrt(np.dot(ssA[:,None],ssB[None]))
  \<close>
  \<^verbatim>\<open>mean(1)\<close> raises on an array that has no axis 1. The two operands of the final
  division have the shape \<open>a \<times> b\<close> both.
\<close>

definition corr2_coeff ::
  "npfloat ndarray \<Rightarrow> npfloat ndarray \<Rightarrow> np_error + npfloat array2" where
  "corr2_coeff A B =
     (case A of
        Array2 N ra \<Rightarrow>
          (case B of
             Array2 M rb \<Rightarrow>
               (let A_mA = (N, sub_col ra (mean1 ra));
                    B_mB = (M, sub_col rb (mean1 rb));
                    ssA = sum1 (square (snd A_mA));
                    ssB = sum1 (square (snd B_mB))
                in case np_dot A_mA (np_T B_mB) of
                     Inl e \<Rightarrow> Inl e
                   | Inr num \<Rightarrow>
                       (case np_dot (as_col ssA) (as_row ssB) of
                          Inl e \<Rightarrow> Inl e
                        | Inr den \<Rightarrow> Inr (np_divide num (np_sqrt2 den))))
           | _ \<Rightarrow> Inl AxisError)
      | _ \<Rightarrow> Inl AxisError)"

text \<open>
  \<^verbatim>\<open>
  def getCorrelation(k,v):
      pairBlock=list(v)
      pairBlock1=pairBlock[0][0]
      blockMatrix1=pairBlock[0][1]
      if (len(pairBlock)==1):
          blockMatrix2=pairBlock[0][1]
          k=(pairBlock[0][0],pairBlock[0][0])
      else:
          blockMatrix2=pairBlock[1][1]
          k=(pairBlock[0][0],pairBlock[1][0])
      corrB1B2=corr2_coeff(np.array(blockMatrix1),np.array(blockMatrix2))
      return (k,corrB1B2)
  \<close>
  \<^verbatim>\<open>pairBlock[0]\<close> raises \<^verbatim>\<open>IndexError\<close> on the empty group; in the second branch
  the group has two entries at least, so \<^verbatim>\<open>pairBlock[1]\<close> is there.
\<close>

definition getCorrelation ::
  "'k \<Rightarrow> (int \<times> npfloat list list) list \<Rightarrow> np_error + ((int \<times> int) \<times> npfloat array2)" where
  "getCorrelation k v =
     (let pairBlock = v
      in if length pairBlock = 0 then Inl IndexError
         else
           (let pairBlock1 = fst (pairBlock ! 0);
                blockMatrix1 = snd (pairBlock ! 0);
                (blockMatrix2, k') =
                  (if length pairBlock = 1
                   then (snd (pairBlock ! 0), (fst (pairBlock ! 0), fst (pairBlock ! 0)))
                   else (snd (pairBlock ! 1), (fst (pairBlock ! 0), fst (pairBlock ! 1))))
            in case corr2_coeff (np_array blockMatrix1) (np_array blockMatrix2) of
                 Inl e \<Rightarrow> Inl e
               | Inr corrB1B2 \<Rightarrow> Inr (k', corrB1B2)))"

subsection \<open>Blocks of finite numbers\<close>

text \<open>A block of finite numbers, as the arrays of the code hold it.\<close>

definition fin_block :: "real list list \<Rightarrow> npfloat list list" where
  "fin_block X = map (map Fin) X"



text \<open>
  On rows of finite numbers no special value arises before the final division, and the
  entry is the quotient of two finite numbers, computed on the lists of reals.
\<close>

definition center :: "real list \<Rightarrow> real list" where
  "center x = map (\<lambda>v. v - sum_list x / real (length x)) x"

definition dotp :: "real list \<Rightarrow> real list \<Rightarrow> real" where
  "dotp u v = sum_list (map2 (*) u v)"

definition corr_entry :: "real list \<Rightarrow> real list \<Rightarrow> npfloat" where
  "corr_entry x y =
     np_div (Fin (dotp (center x) (center y)))
            (Fin (sqrt (dotp (center x) (center x) * dotp (center y) (center y))))"

section \<open>Pair keys\<close>

lemma digit_char_in: "d < 10 \<Longrightarrow> digit_char d \<in> set ''0123456789''"
  unfolding digit_char_def by (rule nth_mem) simp

lemma digit_char_inj: "a < 10 \<Longrightarrow> b < 10 \<Longrightarrow> digit_char a = digit_char b \<Longrightarrow> a = b"
  unfolding digit_char_def
  by (subst (asm) nth_eq_iff_index_eq) simp_all

lemma str_nat_digits: "set (str_nat n) \<subseteq> set ''0123456789''"
proof (induction n rule: str_nat.induct)
  case (1 n)
  show ?case
  proof (cases "n < 10")
    case True
    then show ?thesis using digit_char_in [of n] by (subst str_nat.simps) simp
  next
    case False
    have "n mod 10 < 10" by simp
    then have "digit_char (n mod 10) \<in> set ''0123456789''" by (rule digit_char_in)
    with False "1.IH" show ?thesis by (subst str_nat.simps) simp
  qed
qed

lemma str_nat_nonempty: "str_nat n \<noteq> []"
  by (subst str_nat.simps) simp

lemma str_nat_snoc: "str_nat n = str_nat m \<Longrightarrow> n = m"
proof (induction n arbitrary: m rule: str_nat.induct)
  case (1 n)
  show ?case
  proof (cases "n < 10")
    case n: True
    show ?thesis
    proof (cases "m < 10")
      case True
      with n "1.prems" show ?thesis
        by (simp add: str_nat.simps [of n] str_nat.simps [of m] digit_char_inj)
    next
      case False
      with n "1.prems" show ?thesis
        using str_nat_nonempty [of "m div 10"]
        by (simp add: str_nat.simps [of n] str_nat.simps [of m])
    qed
  next
    case n: False
    show ?thesis
    proof (cases "m < 10")
      case True
      with n "1.prems" show ?thesis
        using str_nat_nonempty [of "n div 10"]
        by (simp add: str_nat.simps [of n] str_nat.simps [of m])
    next
      case False
      with n "1.prems" have e: "str_nat (n div 10) = str_nat (m div 10)"
        and d: "digit_char (n mod 10) = digit_char (m mod 10)"
        by (simp_all add: str_nat.simps [of n] str_nat.simps [of m])
      from "1.IH" [OF n e] have "n div 10 = m div 10" .
      moreover from d have "n mod 10 = m mod 10" by (intro digit_char_inj) simp_all
      ultimately show ?thesis by (metis div_mult_mod_eq)
    qed
  qed
qed

lemma str_int_inj: "str_int i = str_int j \<Longrightarrow> i = j"
proof -
  assume a: "str_int i = str_int j"
  have nd: "\<And>n. hd (str_nat n) \<noteq> CHR ''-''"
  proof -
    fix n
    have "hd (str_nat n) \<in> set (str_nat n)" using str_nat_nonempty by simp
    then have "hd (str_nat n) \<in> set ''0123456789''" using str_nat_digits by blast
    then show "hd (str_nat n) \<noteq> CHR ''-''" by auto
  qed
  show ?thesis
  proof (cases "i < 0"; cases "j < 0")
    assume "i < 0" "j < 0"
    with a have "nat (- i) = nat (- j)" by (simp add: str_int_def str_nat_snoc)
    with \<open>i < 0\<close> \<open>j < 0\<close> show ?thesis by simp
  next
    assume "i < 0" "\<not> j < 0"
    with a have "str_nat (nat j) = CHR ''-'' # str_nat (nat (- i))" by (simp add: str_int_def)
    then have "hd (str_nat (nat j)) = CHR ''-''" by simp
    with nd show ?thesis by blast
  next
    assume "\<not> i < 0" "j < 0"
    with a have "str_nat (nat i) = CHR ''-'' # str_nat (nat (- j))" by (simp add: str_int_def)
    then have "hd (str_nat (nat i)) = CHR ''-''" by simp
    with nd show ?thesis by blast
  next
    assume "\<not> i < 0" "\<not> j < 0"
    with a have "nat i = nat j" by (simp add: str_int_def str_nat_snoc)
    with \<open>\<not> i < 0\<close> \<open>\<not> j < 0\<close> show ?thesis by simp
  qed
qed

lemma str_int_no_comma: "CHR '','' \<notin> set (str_int i)"
proof -
  have "\<And>n. CHR '','' \<notin> set (str_nat n)" using str_nat_digits by fastforce
  then show ?thesis by (simp add: str_int_def)
qed

lemma split_at_comma:
  "CHR '','' \<notin> set a \<Longrightarrow> CHR '','' \<notin> set b \<Longrightarrow> a @ CHR '','' # r = b @ CHR '','' # s
   \<Longrightarrow> a = b \<and> r = s"
proof (induction a arbitrary: b)
  case Nil
  then show ?case by (cases b) auto
next
  case (Cons x a)
  then show ?case by (cases b) auto
qed

lemma PairKey_sorted: "PairKey k l = ''['' @ str_int (min k l) @ '', '' @ str_int (max k l) @ '']''"
  by (simp add: PairKey_def sorted_py_def str_list_def min_def max_def)

lemma PairKey_inj: "PairKey k l = PairKey k' l' \<Longrightarrow> min k l = min k' l' \<and> max k l = max k' l'"
proof -
  assume "PairKey k l = PairKey k' l'"
  then have e: "str_int (min k l) @ CHR '','' # (CHR '' '' # str_int (max k l) @ '']'')
     = str_int (min k' l') @ CHR '','' # (CHR '' '' # str_int (max k' l') @ '']'')"
    by (simp add: PairKey_sorted)
  from split_at_comma [OF str_int_no_comma str_int_no_comma e]
  show ?thesis by (simp add: str_int_inj)
qed

lemma PairKey_eq_iff: "PairKey k l = PairKey k' l' \<longleftrightarrow> {k, l} = {k', l'}"
proof
  assume "PairKey k l = PairKey k' l'"
  then have "min k l = min k' l' \<and> max k l = max k' l'" by (rule PairKey_inj)
  then show "{k, l} = {k', l'}" by (auto simp: min_def max_def doubleton_eq_iff split: if_splits)
next
  assume "{k, l} = {k', l'}"
  then have "min k l = min k' l' \<and> max k l = max k' l'"
    by (auto simp: doubleton_eq_iff)
  then show "PairKey k l = PairKey k' l'" by (simp add: PairKey_sorted)
qed

section \<open>The Pair Expander over all blocks\<close>

lemma range_py_length: "length (range_py 0 (int n)) = n"
  by (simp add: range_py_def)

lemma range_py_set: "set (range_py 0 p) = {0..<p}"
  by (auto simp: range_py_def)

lemma range_py_distinct: "distinct (range_py a b)"
  by (simp add: range_py_def)

lemma stage1_eq: "stage1 parts = zip (range_py 0 (int (length parts))) parts"
proof -
  have "\<And>xs :: (int \<times> 'a list) list. concat (map (\<lambda>(i, v). [(i, v)]) xs) = xs"
  proof -
    fix xs :: "(int \<times> 'a list) list"
    show "concat (map (\<lambda>(i, v). [(i, v)]) xs) = xs" by (induction xs) auto
  qed
  then show ?thesis by (simp add: stage1_def mapPartitionsWithIndex_def f_def)
qed

lemma stage1_nth: "stage1 parts = map (\<lambda>i. (i, parts ! nat i)) (range_py 0 (int (length parts)))"
  unfolding stage1_eq
  by (rule nth_equalityI) (simp_all add: range_py_def)

lemma filter_eq_distinct:
  "distinct xs \<Longrightarrow> filter (\<lambda>x. x = c) xs = (if c \<in> set xs then [c] else [])"
  by (induction xs) auto

lemma filter_concat_map: "filter P (concat (map g xs)) = concat (map (\<lambda>x. filter P (g x)) xs)"
  by (induction xs) auto

lemma concat_map_singleton_filter:
  "concat (map (\<lambda>x. if P x then [h x] else []) xs) = map h (filter P xs)"
  by (induction xs) auto

lemma filter_pair_upto:
  assumes "0 \<le> k" "k \<le> l" "l < p"
  shows "filter (\<lambda>i. i = k \<or> i = l) (range_py 0 p) = (if k = l then [k] else [k, l])"
proof -
  have s: "range_py 0 p = [0..k - 1] @ k # [k + 1..p - 1]"
    unfolding range_py_def using assms by (intro upto_split3) auto
  show ?thesis
  proof (cases "k = l")
    case True
    with assms show ?thesis by (simp add: filter_eq_distinct range_py_distinct range_py_set)
  next
    case False
    with assms have "k < l" by simp
    then have t: "[k + 1..p - 1] = [k + 1..l - 1] @ l # [l + 1..p - 1]"
      using assms by (intro upto_split3) auto
    have "filter (\<lambda>i. i = k \<or> i = l) [0..k - 1] = []"
      using \<open>k < l\<close> by (auto simp: filter_empty_conv)
    moreover have "filter (\<lambda>i. i = k \<or> i = l) [k + 1..l - 1] = []"
      by (auto simp: filter_empty_conv)
    moreover have "filter (\<lambda>i. i = k \<or> i = l) [l + 1..p - 1] = []"
      using \<open>k < l\<close> by (auto simp: filter_empty_conv)
    ultimately show ?thesis using False by (simp add: s t)
  qed
qed

lemma stage2_records:
  assumes "0 \<le> k" "k \<le> l" "l < int (length parts)"
  shows "filter (\<lambda>r. fst r = PairKey k l) (stage2 (int (length parts)) (stage1 parts))
         = (if k = l then [(PairKey k k, (k, parts ! nat k))]
            else [(PairKey k l, (k, parts ! nat k)), (PairKey k l, (l, parts ! nat l))])"
proof -
  let ?p = "int (length parts)"
  have kl: "0 \<le> l" "k < ?p" using assms by auto
  have one: "filter (\<lambda>r. fst r = PairKey k l) (makePairParts i v ?p)
        = (if i = k then [(PairKey k l, (i, v))] else [])
        @ (if i = l \<and> k \<noteq> l then [(PairKey k l, (i, v))] else [])" for i and v :: "'a list"
  proof -
    have "filter (\<lambda>r. fst r = PairKey k l) (makePairParts i v ?p)
        = map (\<lambda>m. (PairKey i m, (i, v))) (filter (\<lambda>m. {i, m} = {k, l}) (range_py 0 ?p))"
      by (simp add: makePairParts_def filter_map comp_def PairKey_eq_iff)
    also have "filter (\<lambda>m. {i, m} = {k, l}) (range_py 0 ?p)
        = (if i = k then [l] else []) @ (if i = l \<and> k \<noteq> l then [k] else [])"
    proof -
      have "filter (\<lambda>m. {i, m} = {k, l}) (range_py 0 ?p) = filter (\<lambda>m. m = l) (range_py 0 ?p)"
        if "i = k"
        using that by (intro filter_cong refl) (auto simp: doubleton_eq_iff)
      moreover have "filter (\<lambda>m. {i, m} = {k, l}) (range_py 0 ?p) = filter (\<lambda>m. m = k) (range_py 0 ?p)"
        if "i = l" "k \<noteq> l"
        using that by (intro filter_cong refl) (auto simp: doubleton_eq_iff)
      moreover have "filter (\<lambda>m. {i, m} = {k, l}) (range_py 0 ?p) = []"
        if "i \<noteq> l" "i \<noteq> k"
        using that by (auto simp: filter_empty_conv doubleton_eq_iff)
      ultimately show ?thesis
        using assms kl by (auto simp: filter_eq_distinct range_py_distinct range_py_set)
    qed
    finally show ?thesis by (auto simp: PairKey_eq_iff doubleton_eq_iff)
  qed
  have "filter (\<lambda>r. fst r = PairKey k l) (stage2 ?p (stage1 parts))
      = concat (map (\<lambda>i. (if i = k then [(PairKey k l, (i, parts ! nat i))] else [])
                       @ (if i = l \<and> k \<noteq> l then [(PairKey k l, (i, parts ! nat i))] else []))
                 (range_py 0 ?p))"
    by (simp add: stage2_def flatMap_def stage1_nth filter_concat_map comp_def one)
  also have "\<dots> = concat (map (\<lambda>i. if i = k \<or> i = l then [(PairKey k l, (i, parts ! nat i))] else [])
                 (range_py 0 ?p))"
    by (intro arg_cong [where f = concat] map_cong refl) auto
  also have "\<dots> = map (\<lambda>i. (PairKey k l, (i, parts ! nat i)))
                     (filter (\<lambda>i. i = k \<or> i = l) (range_py 0 ?p))"
    by (rule concat_map_singleton_filter)
  also have "\<dots> = (if k = l then [(PairKey k k, (k, parts ! nat k))]
            else [(PairKey k l, (k, parts ! nat k)), (PairKey k l, (l, parts ! nat l))])"
    using assms by (simp add: filter_pair_upto)
  finally show ?thesis .
qed


lemma triangle_Suc: "triangle (Suc n) = triangle n \<union> (\<lambda>k. (k, int n)) ` {0..int n}"
  by (auto simp: triangle_def)

lemma triangle_0: "triangle 0 = {}"
  by (auto simp: triangle_def)

lemma triangle_finite: "finite (triangle n)"
  by (induction n) (simp_all add: triangle_Suc triangle_0)

lemma triangle_card: "card (triangle n) = n * (n + 1) div 2"
proof (induction n)
  case 0
  then show ?case by (simp add: triangle_0)
next
  case (Suc n)
  have d: "triangle n \<inter> (\<lambda>k. (k, int n)) ` {0..int n} = {}"
    by (auto simp: triangle_def)
  have c: "card ((\<lambda>k. (k, int n)) ` {0..int n}) = n + 1"
    by (subst card_image) (auto simp: inj_on_def)
  have "card (triangle (Suc n)) = card (triangle n) + (n + 1)"
    unfolding triangle_Suc using d c triangle_finite
    by (subst card_Un_disjoint) auto
  with Suc show ?case by simp
qed

lemma stage2_keys:
  "fst ` set (stage2 (int (length parts)) (stage1 parts))
   = (\<lambda>(k, l). PairKey k l) ` triangle (length parts)"
proof -
  let ?p = "int (length parts)"
  have "fst ` set (stage2 ?p (stage1 parts)) = (\<lambda>(k, l). PairKey k l) ` ({0..<?p} \<times> {0..<?p})"
    by (force simp: stage2_def flatMap_def stage1_nth makePairParts_def range_py_set image_iff)
  also have "\<dots> = (\<lambda>(k, l). PairKey k l) ` triangle (length parts)"
  proof (intro equalityI subsetI)
    fix s assume "s \<in> (\<lambda>(k, l). PairKey k l) ` ({0..<?p} \<times> {0..<?p})"
    then obtain k l where s: "s = PairKey k l" and r: "0 \<le> k" "k < ?p" "0 \<le> l" "l < ?p" by auto
    have "PairKey k l = PairKey (min k l) (max k l)" by (simp add: PairKey_sorted)
    moreover have "(min k l, max k l) \<in> triangle (length parts)"
      using r by (auto simp: triangle_def)
    ultimately show "s \<in> (\<lambda>(k, l). PairKey k l) ` triangle (length parts)"
      unfolding s by (metis (mono_tags, lifting) image_eqI old.prod.case)
  next
    fix s assume "s \<in> (\<lambda>(k, l). PairKey k l) ` triangle (length parts)"
    then show "s \<in> (\<lambda>(k, l). PairKey k l) ` ({0..<?p} \<times> {0..<?p})"
      by (auto simp: triangle_def)
  qed
  finally show ?thesis .
qed

lemma PairKey_inj_on_triangle: "inj_on (\<lambda>(k, l). PairKey k l) (triangle n)"
  by (auto simp: inj_on_def triangle_def PairKey_eq_iff doubleton_eq_iff)

lemma stage2_key_count:
  "card (fst ` set (stage2 (int (length parts)) (stage1 parts)))
   = length parts * (length parts + 1) div 2"
  by (simp add: stage2_keys card_image PairKey_inj_on_triangle triangle_card)

section \<open>The correlation of two blocks of finite numbers\<close>

lemma foldl_np_add_fin: "foldl np_add (Fin a) (map Fin xs) = Fin (a + sum_list xs)"
  by (induction xs arbitrary: a) (simp_all add: np_add_def add.assoc)

lemma np_sum_fin: "np_sum (map Fin xs) = Fin (sum_list xs)"
  by (simp add: np_sum_def foldl_np_add_fin)

lemma map2_same: "map2 h (map g xs) (map k xs) = map (\<lambda>x. h (g x) (k x)) xs"
  by (induction xs) simp_all

lemma map2_fin: "map2 np_mul (map Fin u) (map Fin v) = map Fin (map2 (*) u v)"
proof (induction u arbitrary: v)
  case Nil
  then show ?case by simp
next
  case (Cons a u)
  then show ?case by (cases v) (simp_all add: np_mul_def)
qed

lemma center_row:
  "map (\<lambda>x. np_sub (Fin x) (np_div (np_sum (map Fin r)) (Fin (real (length r))))) r
   = map Fin (center r)"
proof (cases "r = []")
  case True
  then show ?thesis by (simp add: center_def)
next
  case False
  then have "real (length r) \<noteq> 0" by simp
  then have "np_div (np_sum (map Fin r)) (Fin (real (length r)))
      = Fin (sum_list r / real (length r))"
    unfolding np_sum_fin by (simp add: np_div_def)
  then show ?thesis by (simp add: center_def np_sub_def np_add_def np_neg_def comp_def)
qed

lemma sub_col_mean1: "sub_col (fin_block X) (mean1 (fin_block X)) = fin_block (map center X)"
proof -
  have "sub_col (fin_block X) (mean1 (fin_block X))
      = map (\<lambda>r. map (\<lambda>x. np_sub x (np_div (np_sum (map Fin r)) (Fin (real (length r)))))
                (map Fin r)) X"
    unfolding sub_col_def mean1_def fin_block_def map_map
    by (subst map2_same) (simp add: comp_def)
  also have "\<dots> = map (\<lambda>r. map Fin (center r)) X"
    by (intro map_cong refl) (simp add: comp_def center_row)
  finally show ?thesis by (simp add: fin_block_def comp_def)
qed

lemma np_sum_square: "np_sum (map (\<lambda>x. np_mul (Fin x) (Fin x)) z) = Fin (dotp z z)"
proof -
  have "map (\<lambda>x. np_mul (Fin x) (Fin x)) z = map Fin (map2 (*) z z)"
    by (induction z) (simp_all add: np_mul_def)
  then show ?thesis unfolding dotp_def by (simp only: np_sum_fin)
qed

lemma sum1_square: "sum1 (square (fin_block Z)) = map (\<lambda>z. Fin (dotp z z)) Z"
  by (simp add: sum1_def square_def fin_block_def comp_def np_sum_square)

lemma map_nth_fun: "map (\<lambda>i. g (xs ! i)) [0..<length xs] = map g xs"
  by (rule nth_equalityI) simp_all

lemma column_of_T:
  assumes "j < length Z" "length (Z ! j) = M"
  shows "map (\<lambda>c. c ! j) (snd (np_T (M, Z))) = Z ! j"
  using assms by (intro nth_equalityI) (simp_all add: np_T_def)

lemma np_dot_T:
  assumes "\<forall>y\<in>set Y. length y = N"
  shows "np_dot (N, fin_block X) (np_T (N, fin_block Y))
         = Inr (length Y, map (\<lambda>x. map (\<lambda>y. Fin (dotp x y)) Y) X)"
proof -
  have len: "length (snd (np_T (N, fin_block Y))) = N" and c: "fst (np_T (N, fin_block Y)) = length Y"
    by (simp_all add: np_T_def fin_block_def)
  have col: "map (\<lambda>c. c ! j) (snd (np_T (N, fin_block Y))) = map Fin (Y ! j)" if "j < length Y" for j
  proof -
    have "map (\<lambda>c. c ! j) (snd (np_T (N, fin_block Y))) = fin_block Y ! j"
      using that assms by (intro column_of_T) (simp_all add: fin_block_def)
    then show ?thesis using that by (simp add: fin_block_def)
  qed
  have row: "map (\<lambda>j. np_sum (map2 np_mul (map Fin x) (map (\<lambda>c. c ! j) (snd (np_T (N, fin_block Y))))))
                 [0..<length Y]
             = map (\<lambda>y. Fin (dotp x y)) Y" for x
  proof -
    have "map (\<lambda>j. np_sum (map2 np_mul (map Fin x) (map (\<lambda>c. c ! j) (snd (np_T (N, fin_block Y))))))
                 [0..<length Y]
        = map (\<lambda>j. Fin (dotp x (Y ! j))) [0..<length Y]"
    proof (intro map_cong refl)
      fix j assume "j \<in> set [0..<length Y]"
      then have j: "j < length Y" by simp
      show "np_sum (map2 np_mul (map Fin x) (map (\<lambda>c. c ! j) (snd (np_T (N, fin_block Y)))))
            = Fin (dotp x (Y ! j))"
        unfolding col [OF j] map2_fin np_sum_fin dotp_def ..
    qed
    also have "\<dots> = map (\<lambda>y. Fin (dotp x y)) Y"
      by (rule map_nth_fun)
    finally show ?thesis .
  qed
  have rows: "map (\<lambda>r. map (\<lambda>j. np_sum (map2 np_mul r (map (\<lambda>c. c ! j) (snd (np_T (N, fin_block Y))))))
                      [0..<length Y]) (fin_block X)
              = map (\<lambda>x. map (\<lambda>y. Fin (dotp x y)) Y) X"
    by (simp add: fin_block_def [of X] comp_def row)
  show ?thesis
    unfolding np_dot_def by (simp add: len c rows)
qed

lemma np_dot_outer:
  "np_dot (as_col (map (\<lambda>x. Fin (g x)) X)) (as_row (map (\<lambda>y. Fin (h y)) Y))
   = Inr (length Y, map (\<lambda>x. map (\<lambda>y. Fin (g x * h y)) Y) X)"
proof -
  have "map (\<lambda>j. np_sum (map2 np_mul [Fin a] (map (\<lambda>c. c ! j) [map (\<lambda>y. Fin (h y)) Y]))) [0..<length Y]
        = map (\<lambda>y. Fin (a * h y)) Y" for a
  proof -
    have "map (\<lambda>j. np_sum (map2 np_mul [Fin a] (map (\<lambda>c. c ! j) [map (\<lambda>y. Fin (h y)) Y]))) [0..<length Y]
        = map (\<lambda>j. Fin (a * h (Y ! j))) [0..<length Y]"
      by (intro map_cong refl) (simp add: np_sum_def np_mul_def np_add_def)
    then show ?thesis by (simp add: map_nth_fun [where g = "\<lambda>y. Fin (a * h y)"])
  qed
  then show ?thesis
    by (simp add: np_dot_def as_col_def as_row_def comp_def)
qed

lemma dotp_self_nonneg: "0 \<le> dotp z z"
proof -
  have "0 \<le> sum_list (map2 (*) z z)"
    by (rule sum_list_nonneg) (auto simp: set_zip)
  then show ?thesis by (simp add: dotp_def)
qed

lemma corr2_coeff_fin:
  assumes "\<forall>y\<in>set Y. length y = N"
  shows "corr2_coeff (Array2 N (fin_block X)) (Array2 N (fin_block Y))
         = Inr (length Y, map (\<lambda>x. map (\<lambda>y. corr_entry x y) Y) X)"
proof -
  have cY: "\<forall>y\<in>set (map center Y). length y = N"
    using assms by (simp add: center_def)
  have num: "np_dot (N, fin_block (map center X)) (np_T (N, fin_block (map center Y)))
      = Inr (length Y, map (\<lambda>x. map (\<lambda>y. Fin (dotp (center x) (center y))) Y) X)"
    using np_dot_T [OF cY, of "map center X"] by (simp add: comp_def)
  have den: "np_dot (as_col (sum1 (square (fin_block (map center X)))))
                    (as_row (sum1 (square (fin_block (map center Y)))))
      = Inr (length Y, map (\<lambda>x. map (\<lambda>y. Fin (dotp (center x) (center x) * dotp (center y) (center y))) Y) X)"
    using np_dot_outer [of "\<lambda>x. dotp (center x) (center x)" X "\<lambda>y. dotp (center y) (center y)" Y]
    by (simp add: sum1_square comp_def)
  have sq: "np_sqrt (Fin (dotp u u * dotp v v)) = Fin (sqrt (dotp u u * dotp v v))" for u v
    using dotp_self_nonneg [of u] dotp_self_nonneg [of v]
    by (simp add: np_sqrt_def not_less)
  show ?thesis
    unfolding corr2_coeff_def
    by (simp add: sub_col_mean1 num den Let_def np_divide_def np_sqrt2_def comp_def sq
          map2_same corr_entry_def)
qed

section \<open>The correlation of two blocks of any numbers\<close>










section \<open>The Block Correlator on concrete groups\<close>


lemma getCorrelation_Nil: "getCorrelation key [] = Inl IndexError"
  by (simp add: getCorrelation_def)

lemma getCorrelation_one:
  "getCorrelation key [e0] =
     (case corr2_coeff (np_array (snd e0)) (np_array (snd e0)) of
        Inl e \<Rightarrow> Inl e | Inr c \<Rightarrow> Inr ((fst e0, fst e0), c))"
  by (simp add: getCorrelation_def)


lemma getCorrelation_two:
  "getCorrelation key (e0 # e1 # rest) =
     (case corr2_coeff (np_array (snd e0)) (np_array (snd e1)) of
        Inl e \<Rightarrow> Inl e | Inr c \<Rightarrow> Inr ((fst e0, fst e1), c))"
  by (simp add: getCorrelation_def)

lemma corr_entry_example: "corr_entry [1, 2] [3, 5] = Fin 1"
  by (simp add: corr_entry_def center_def dotp_def np_div_def)

lemma corr2_coeff_example:
  "corr2_coeff (np_array [[Fin 1, Fin 2]]) (np_array [[Fin 3, Fin 5]]) = Inr (1, [[Fin 1]])"
proof -
  have a: "np_array [[Fin 1, Fin 2]] = Array2 2 (fin_block [[1, 2]])"
    and b: "np_array [[Fin 3, Fin 5]] = Array2 2 (fin_block [[3, 5]])"
    by (simp_all add: np_array_def fin_block_def)
  have "\<forall>y\<in>set [[3, 5::real]]. length y = 2" by simp
  from corr2_coeff_fin [OF this, of "[[1, 2]]"] show ?thesis
    unfolding a b by (simp add: corr_entry_example)
qed

lemma getCorrelation_example_swapped:
  "getCorrelation key [(1, [[Fin 1, Fin 2]]), (0, [[Fin 3, Fin 5]])] = Inr ((1, 0), (1, [[Fin 1]]))"
  by (simp add: getCorrelation_two corr2_coeff_example)

lemma corr_entry_few:
  assumes "length x < 2"
  shows "corr_entry x y = NaN"
proof -
  have "dotp (center x) (center x) = 0"
  proof (cases x)
    case Nil
    then show ?thesis by (simp add: center_def dotp_def)
  next
    case (Cons a as)
    with assms have "as = []" by simp
    with Cons show ?thesis by (simp add: center_def dotp_def)
  qed
  moreover have "dotp (center x) (center y) = 0"
  proof (cases x)
    case Nil
    then show ?thesis by (simp add: center_def dotp_def)
  next
    case (Cons a as)
    with assms have "as = []" by simp
    with Cons show ?thesis by (cases "center y") (simp_all add: center_def dotp_def)
  qed
  ultimately show ?thesis by (simp add: corr_entry_def np_div_def)
qed


lemma stage1_snd: "map snd (stage1 parts) = parts"
  by (simp add: stage1_eq range_py_length)

lemma some_partition_empty:
  assumes "length (concat parts) < length parts"
  shows "[] \<in> set parts"
proof (rule ccontr)
  assume n: "[] \<notin> set parts"
  have "[] \<notin> set ps \<Longrightarrow> length ps \<le> length (concat ps)" for ps :: "'a list list"
  proof (induction ps)
    case Nil
    then show ?case by simp
  next
    case (Cons q ps)
    then have "q \<noteq> []" "[] \<notin> set ps" by auto
    then have "1 \<le> length q" "length ps \<le> length (concat ps)"
      using Cons.IH by (simp_all add: Suc_le_eq)
    then show ?case by simp
  qed
  from this [OF n] assms show False by simp
qed

section \<open>The claims\<close>

text \<open>
  Claim C3. The pair key \<^verbatim>\<open>str(sorted([k,l]))\<close> is symmetric, and two pairs have the
  same key exactly when they are the same unordered pair; this holds for all integers,
  so for all block indices below \<open>p\<close>.
\<close>

theorem PairKey_canonical:
  "PairKey k l = PairKey l k \<and> ((PairKey k l = PairKey k' l') = ({k, l} = {k', l'}))"
proof
  show "PairKey k l = PairKey l k" by (simp add: PairKey_sorted min.commute max.commute)
  show "(PairKey k l = PairKey k' l') = ({k, l} = {k', l'})" by (rule PairKey_eq_iff)
qed

theorem PairKey_canonical_witness:
  "PairKey 0 2 = PairKey 2 0 \<and> PairKey 0 2 \<noteq> PairKey 1 2 \<and> PairKey 0 2 = ''[0, 2]''"
proof -
  have "PairKey 0 2 = ''[0, 2]''" by code_simp
  moreover have "{0, 2} \<noteq> {1, 2::int}" by (simp add: doubleton_eq_iff)
  ultimately show ?thesis
    using PairKey_canonical [of 0 2 1 2] by blast
qed

text \<open>
  Claim C1. When \<^verbatim>\<open>makePairParts\<close> has run over all \<open>p\<close> blocks of stage 1, the
  records carry \<open>p(p+1)/2\<close> distinct keys, and for \<open>0 \<le> k \<le> l < p\<close> the records under
  the key of \<open>{k,l}\<close> are one record, from block \<open>k\<close>, when \<open>k = l\<close>, and two records,
  from block \<open>k\<close> and from block \<open>l\<close>, when \<open>k \<noteq> l\<close>.
\<close>

theorem makePairParts_all_blocks:
  assumes "length parts = p"
  shows "card (fst ` set (stage2 (int p) (stage1 parts))) = p * (p + 1) div 2
     \<and> (\<forall>k l. 0 \<le> k \<and> k \<le> l \<and> l < int p \<longrightarrow>
          map snd (filter (\<lambda>r. fst r = PairKey k l) (stage2 (int p) (stage1 parts)))
          = (if k = l then [(k, parts ! nat k)] else [(k, parts ! nat k), (l, parts ! nat l)]))"
  using assms stage2_key_count [of parts] stage2_records [of _ _ parts] by auto

theorem makePairParts_all_blocks_witness:
  "card (fst ` set (stage2 3 (stage1 [[1], [2], [3::nat]]))) = 6
   \<and> map snd (filter (\<lambda>r. fst r = PairKey 0 2) (stage2 3 (stage1 [[1], [2], [3::nat]])))
       = [(0, [1]), (2, [3])]
   \<and> map snd (filter (\<lambda>r. fst r = PairKey 1 1) (stage2 3 (stage1 [[1], [2], [3::nat]])))
       = [(1, [2])]"
proof -
  have l: "length [[1], [2], [3::nat]] = 3" by simp
  from makePairParts_all_blocks [OF l] show ?thesis by simp
qed

text \<open>
  Claim C2, as the code has it. For a group of two entries with block indices \<open>k\<close> and
  \<open>l\<close>, \<^verbatim>\<open>getCorrelation\<close> keys its result by \<open>(k, l)\<close> in the order in which the
  group delivers the entries: the index of the first entry comes first. The key is
  \<open>(min(k,l), max(k,l))\<close> exactly when the entry with the lower index is delivered first.
\<close>

theorem getCorrelation_key_order:
  assumes "getCorrelation key [(k, A), (l, B)] = Inr (key', c)"
  shows "key' = (k, l) \<and> corr2_coeff (np_array A) (np_array B) = Inr c
         \<and> (key' = (min k l, max k l) \<longleftrightarrow> k \<le> l)"
proof -
  from assms have "key' = (k, l)" and "corr2_coeff (np_array A) (np_array B) = Inr c"
    by (auto simp: getCorrelation_two split: sum.splits)
  then show ?thesis by (auto simp: min_def max_def)
qed

theorem getCorrelation_key_order_witness:
  "getCorrelation ''[0, 1]'' [(1, [[Fin 1, Fin 2]]), (0, [[Fin 3, Fin 5]])]
     = Inr ((1, 0), (1, [[Fin 1]]))
   \<and> ((1::int, 0::int) = (1, 0)
      \<and> corr2_coeff (np_array [[Fin 1, Fin 2]]) (np_array [[Fin 3, Fin 5]]) = Inr (1, [[Fin 1]])
      \<and> ((1::int, 0::int) = (min 1 0, max 1 0) \<longleftrightarrow> (1::int) \<le> 0))"
  by (rule conjI [OF getCorrelation_example_swapped
        getCorrelation_key_order [OF getCorrelation_example_swapped [of "''[0, 1]''"]]])

text \<open>
  Claim C2 as stated fails: a group that delivers block 1 before block 0 gives the key
  \<open>(1, 0)\<close>, with the correlation of block 1 against block 0.
\<close>

theorem getCorrelation_key_swapped_counterexample:
  "getCorrelation ''[0, 1]'' [(1, [[Fin 1, Fin 2]]), (0, [[Fin 3, Fin 5]])]
     = Inr ((1, 0), (1, [[Fin 1]]))
   \<and> ((1, 0) :: int \<times> int) \<noteq> (min 1 0, max 1 0)"
  by (simp add: getCorrelation_example_swapped)

text \<open>
  Claim C5, as the code has it. With fewer than two observations \<^verbatim>\<open>corr2_coeff\<close>
  raises nothing: on arrays of finite numbers with \<open>N < 2\<close> columns it returns the array
  of \<open>a\<close> rows and \<open>b\<close> columns whose entries are all NaN.
\<close>

theorem corr2_coeff_few_observations:
  assumes "N < 2" "\<forall>x\<in>set A. length x = N" "\<forall>y\<in>set B. length y = N"
  shows "corr2_coeff (Array2 N (fin_block A)) (Array2 N (fin_block B))
         = Inr (length B, map (\<lambda>x. map (\<lambda>y. NaN) B) A)"
proof -
  have "map (\<lambda>x. map (\<lambda>y. corr_entry x y) B) A = map (\<lambda>x. map (\<lambda>y. NaN) B) A"
    using assms by (intro map_cong refl corr_entry_few) simp
  with corr2_coeff_fin [OF assms(3), of A] show ?thesis by simp
qed

theorem corr2_coeff_few_observations_witness:
  "corr2_coeff (Array2 1 (fin_block [[5], [7]])) (Array2 1 (fin_block [[9]]))
   = Inr (1, [[NaN], [NaN]])"
proof -
  have n: "(1::nat) < 2" and a: "\<forall>x\<in>set [[5], [7::real]]. length x = 1"
    and b: "\<forall>y\<in>set [[9::real]]. length y = 1" by simp_all
  from corr2_coeff_few_observations [OF n a b] show ?thesis by simp
qed

text \<open>
  Claim C5 as stated fails: a block of two rows with one observation each is correlated
  with itself without any error, and all four entries of the result are NaN.
\<close>

theorem corr2_coeff_single_observation_counterexample:
  "getCorrelation ''[0, 0]'' [(0, [[Fin 5], [Fin 7]])] = Inr ((0, 0), (2, [[NaN, NaN], [NaN, NaN]]))"
proof -
  have a: "np_array [[Fin 5], [Fin 7]] = Array2 1 (fin_block [[5], [7]])"
    by (simp add: np_array_def fin_block_def)
  have "\<forall>y\<in>set [[5], [7::real]]. length y = 1" by simp
  from corr2_coeff_fin [OF this, of "[[5], [7]]"] show ?thesis
    unfolding getCorrelation_one by (simp add: a corr_entry_few)
qed

text \<open>
  Claim C6, as the code has it. Stage 1 neither caps the partition count nor fails: it
  passes on every partition that the engine delivers, tagged with its index, so its
  result is the list of the partitions paired with \<open>0, 1, \<dots>\<close> in order. When there are
  more partitions than rows, one block at least is empty, and it is passed on.
\<close>

theorem stage1_keeps_every_partition:
  "stage1 parts = zip (range_py 0 (int (length parts))) parts
   \<and> map fst (stage1 parts) = range_py 0 (int (length parts))
   \<and> length (stage1 parts) = length parts \<and> map snd (stage1 parts) = parts
   \<and> (length (concat parts) < length parts \<longrightarrow> (\<exists>b\<in>set (stage1 parts). snd b = []))"
proof (intro conjI impI)
  show "stage1 parts = zip (range_py 0 (int (length parts))) parts" by (rule stage1_eq)
  then show "map fst (stage1 parts) = range_py 0 (int (length parts))"
    by (simp add: range_py_length)
  show s: "map snd (stage1 parts) = parts" by (rule stage1_snd)
  then show "length (stage1 parts) = length parts" by (metis length_map)
  assume "length (concat parts) < length parts"
  then have "[] \<in> set parts" by (rule some_partition_empty)
  then have "[] \<in> snd ` set (stage1 parts)" using s by (metis set_map)
  then show "\<exists>b\<in>set (stage1 parts). snd b = []" by force
qed

theorem stage1_keeps_every_partition_witness:
  "stage1 [[], [[1, 2, 3::real]]] = zip [0, 1] [[], [[1, 2, 3]]]
   \<and> map fst (stage1 [[], [[1, 2, 3::real]]]) = [0, 1]
   \<and> length (stage1 [[], [[1, 2, 3::real]]]) = 2
   \<and> (\<exists>b\<in>set (stage1 [[], [[1, 2, 3::real]]]). snd b = [])"
  using stage1_keeps_every_partition [of "[[], [[1, 2, 3::real]]]"]
  by (simp add: range_py_def upto.simps)

text \<open>
  Claim C6 as stated fails: of the two partitions of a matrix with one row, the first is
  empty, and stage 1 passes it on as block 0.
\<close>

theorem stage1_empty_block_counterexample:
  "stage1 [[], [[1, 2, 3::real]]] = [(0, []), (1, [[1, 2, 3]])]"
  by (simp add: stage1_eq range_py_def upto.simps)

text \<open>
  Claim C7, as the code has it. On the empty group \<^verbatim>\<open>getCorrelation\<close> raises
  \<^verbatim>\<open>IndexError\<close>. Of a group with more than two entries it reads the first two only,
  and returns what it returns for these. For two entries with the same block index
  \<open>k\<close> it correlates the two blocks and keys the result by \<open>(k, k)\<close>.
\<close>

theorem getCorrelation_malformed_groups:
  "getCorrelation key [] = Inl IndexError
   \<and> getCorrelation key (e0 # e1 # rest) = getCorrelation key [e0, e1]
   \<and> getCorrelation key [(k, A), (k, B)] =
       (case corr2_coeff (np_array A) (np_array B) of
          Inl e \<Rightarrow> Inl e | Inr c \<Rightarrow> Inr ((k, k), c))"
  by (simp add: getCorrelation_Nil getCorrelation_two split: sum.splits)

theorem getCorrelation_malformed_groups_witness:
  "getCorrelation ''[0, 1]'' [] = Inl IndexError
   \<and> getCorrelation ''[0, 1]'' [(0, [[Fin 1, Fin 2]]), (1, [[Fin 3, Fin 5]]), (2, [[Fin 4, Fin 4]])]
       = getCorrelation ''[0, 1]'' [(0, [[Fin 1, Fin 2]]), (1, [[Fin 3, Fin 5]])]
   \<and> getCorrelation ''[0, 1]'' [(4, [[Fin 1, Fin 2]]), (4, [[Fin 3, Fin 5]])]
       = Inr ((4, 4), (1, [[Fin 1]]))"
  using getCorrelation_malformed_groups
    [of "''[0, 1]''" "(0, [[Fin 1, Fin 2]])" "(1, [[Fin 3, Fin 5]])" "[(2, [[Fin 4, Fin 4]])]"
        4 "[[Fin 1, Fin 2]]" "[[Fin 3, Fin 5]]"]
  by (simp add: corr2_coeff_example)

text \<open>
  Claim C7 as stated fails: a group of three entries gives a result, the correlation of
  its first two blocks.
\<close>

theorem getCorrelation_three_entries_counterexample:
  "getCorrelation ''[0, 1]'' [(0, [[Fin 1, Fin 2]]), (1, [[Fin 3, Fin 5]]), (2, [[Fin 4, Fin 4]])]
   = Inr ((0, 1), (1, [[Fin 1]]))"
  by (simp add: getCorrelation_two corr2_coeff_example)




text \<open>
  Claim C9. The result of \<^verbatim>\<open>getCorrelation\<close> does not depend on its key argument.
\<close>

theorem getCorrelation_ignores_key: "getCorrelation k1 v = getCorrelation k2 v"
  by (simp add: getCorrelation_def)

theorem getCorrelation_ignores_key_witness:
  "getCorrelation ''[0, 1]'' [(1, [[Fin 1, Fin 2]]), (0, [[Fin 3, Fin 5]])]
   = getCorrelation ''[7, 9]'' [(1, [[Fin 1, Fin 2]]), (0, [[Fin 3, Fin 5]])]"
  by (rule getCorrelation_ignores_key)

end
